theory Spec2Isabelle
  imports Complex_Main
begin

section \<open>The parent-case image viewer component\<close>

text \<open>
  A shallow embedding of \<^verbatim>\<open>parentCaseImageViewer.js\<close>. The component instance is a
  record of its fields; every handler is a function from the instance to the updated
  instance. A handler that also acts on the outside (the console, the browser event,
  the cursor of the viewport element) returns the list of those effects beside the
  instance. JavaScript numbers are modelled exactly: the image index as \<open>int\<close>, zoom,
  pan and pointer coordinates as \<open>rat\<close> (the zoom levels the component produces are
  multiples of a quarter, which doubles represent exactly).
\<close>

subsection \<open>Data\<close>

text \<open>One ContentVersion row as the getters read it. \<open>VersionDataUrl\<close> may be absent.\<close>

record image =
  Id_img :: string
  Title :: string
  FileExtension :: string
  VersionDataUrl :: "string option"

text \<open>The payload of a successful query: both members may be missing on the object.\<close>

record image_result =
  images_res :: "image list option"
  fromParentCase_res :: "bool option"

text \<open>The argument of the wired function, \<^verbatim>\<open>{ error, data }\<close>; an absent member is \<open>None\<close>.\<close>

record wire_value =
  error_w :: "string option"
  data_w :: "image_result option"

record mouse_event =
  clientX :: rat
  clientY :: rat

record wheel_event =
  deltaY :: rat

text \<open>
  What a handler does outside the instance: a \<^verbatim>\<open>console.error(label, object)\<close> call,
  \<^verbatim>\<open>event.preventDefault()\<close>, and the assignment to \<^verbatim>\<open>viewport.style.cursor\<close>, which the
  code performs when the template holds an element of class \<^verbatim>\<open>image-viewport\<close>.
\<close>

datatype effect =
  ConsoleError string string
  | PreventDefault
  | ViewportCursor string

datatype js_error = TypeError

record viewer =
  recordId :: "string option"
  images :: "image list"
  currentImageIndex :: int
  errorMessage :: string
  isLoading :: bool
  hasParentCase :: bool
  zoomLevel :: rat
  minZoom :: rat
  maxZoom :: rat
  zoomStep :: rat
  panX :: rat
  panY :: rat
  isDragging :: bool
  dragStartX :: rat
  dragStartY :: rat

text \<open>The field initialisers of the class.\<close>

definition initial :: viewer where
  "initial = \<lparr> recordId = None, images = [], currentImageIndex = 0, errorMessage = '''',
     isLoading = True, hasParentCase = False, zoomLevel = 1, minZoom = 1, maxZoom = 4,
     zoomStep = 1 / 4, panX = 0, panY = 0, isDragging = False, dragStartX = 0,
     dragStartY = 0 \<rparr>"

subsection \<open>Printing integers\<close>

definition digit_char :: "nat \<Rightarrow> char" where
  "digit_char d = char_of (48 + d)"

fun nat_digits :: "nat \<Rightarrow> string" where
  "nat_digits n = (if n < 10 then [digit_char n]
     else nat_digits (n div 10) @ [digit_char (n mod 10)])"

definition int_string :: "int \<Rightarrow> string" where
  "int_string i = (if i < 0 then CHR ''-'' # nat_digits (nat (- i)) else nat_digits (nat i))"

subsection \<open>Handlers\<close>

definition resetZoomAndPan :: "viewer \<Rightarrow> viewer" where
  "resetZoomAndPan s = s\<lparr> zoomLevel := 1, panX := 0, panY := 0 \<rparr>"

definition wiredImages :: "wire_value \<Rightarrow> viewer \<Rightarrow> viewer \<times> effect list" where
  "wiredImages w s =
     (let s1 = s\<lparr> isLoading := False \<rparr> in
      case data_w w of
        Some d \<Rightarrow>
          (let s2 = s1\<lparr> images := (case images_res d of None \<Rightarrow> [] | Some xs \<Rightarrow> xs),
                          hasParentCase := (case fromParentCase_res d of None \<Rightarrow> False | Some b \<Rightarrow> b),
                          errorMessage := '''' \<rparr>
           in (if int (length (images s2)) > 0
               then resetZoomAndPan (s2\<lparr> currentImageIndex := 0 \<rparr>)
               else s2, []))
      | None \<Rightarrow>
          (case error_w w of
             Some e \<Rightarrow>
               (s1\<lparr> errorMessage := ''Error loading images. Please refresh the page.'',
                     images := [], hasParentCase := False \<rparr>,
                [ConsoleError ''Error loading images:'' e])
           | None \<Rightarrow> (s1, [])))"

definition handlePrevious :: "viewer \<Rightarrow> viewer" where
  "handlePrevious s =
     (if currentImageIndex s > 0
      then resetZoomAndPan (s\<lparr> currentImageIndex := currentImageIndex s - 1 \<rparr>)
      else s)"

definition handleNext :: "viewer \<Rightarrow> viewer" where
  "handleNext s =
     (if currentImageIndex s < int (length (images s)) - 1
      then resetZoomAndPan (s\<lparr> currentImageIndex := currentImageIndex s + 1 \<rparr>)
      else s)"

definition handleImageError :: "string \<Rightarrow> viewer \<Rightarrow> viewer \<times> effect list" where
  "handleImageError event s =
     (s\<lparr> errorMessage := ''Unable to display this image. It may be in an unsupported format.'' \<rparr>,
      [ConsoleError ''Error loading image:'' event])"

definition handleZoomIn :: "viewer \<Rightarrow> viewer" where
  "handleZoomIn s =
     (if zoomLevel s < maxZoom s
      then s\<lparr> zoomLevel := min (zoomLevel s + zoomStep s) (maxZoom s) \<rparr>
      else s)"

definition handleZoomOut :: "viewer \<Rightarrow> viewer" where
  "handleZoomOut s =
     (if zoomLevel s > minZoom s
      then (let s1 = s\<lparr> zoomLevel := max (zoomLevel s - zoomStep s) (minZoom s) \<rparr>
            in if zoomLevel s1 = minZoom s1 then s1\<lparr> panX := 0, panY := 0 \<rparr> else s1)
      else s)"

definition handleResetZoom :: "viewer \<Rightarrow> viewer" where
  "handleResetZoom s = resetZoomAndPan s"

definition handleWheel :: "wheel_event \<Rightarrow> viewer \<Rightarrow> viewer \<times> effect list" where
  "handleWheel event s =
     (if deltaY event < 0 then handleZoomIn s else handleZoomOut s, [PreventDefault])"

definition handleMouseDown :: "mouse_event \<Rightarrow> viewer \<Rightarrow> viewer \<times> effect list" where
  "handleMouseDown event s =
     (if zoomLevel s > 1
      then (s\<lparr> isDragging := True,
                dragStartX := clientX event - panX s,
                dragStartY := clientY event - panY s \<rparr>,
            [ViewportCursor ''grabbing''])
      else (s, []))"

definition handleMouseUp :: "viewer \<Rightarrow> viewer \<times> effect list" where
  "handleMouseUp s =
     (s\<lparr> isDragging := False \<rparr>,
      [ViewportCursor (if zoomLevel s > 1 then ''grab'' else ''default'')])"

definition handleMouseLeave :: "viewer \<Rightarrow> viewer \<times> effect list" where
  "handleMouseLeave s = (if isDragging s then handleMouseUp s else (s, []))"

definition handleMouseMove :: "mouse_event \<Rightarrow> viewer \<Rightarrow> viewer \<times> effect list" where
  "handleMouseMove event s =
     (if isDragging s \<and> zoomLevel s > 1
      then (let newPanX = clientX event - dragStartX s;
                newPanY = clientY event - dragStartY s;
                maxPan = 100 * zoomLevel s
            in (s\<lparr> panX := max (- maxPan) (min maxPan newPanX),
                    panY := max (- maxPan) (min maxPan newPanY) \<rparr>,
                [PreventDefault]))
      else (s, []))"

subsection \<open>Getters\<close>

definition cardTitle :: "viewer \<Rightarrow> string" where
  "cardTitle s = (if hasParentCase s then ''Parent Case Images'' else ''Case Images'')"

definition noImagesMessage :: "viewer \<Rightarrow> string" where
  "noImagesMessage s =
     (if hasParentCase s then ''No images found on the parent case.''
      else ''No images found on this case.'')"

text \<open>
  \<^verbatim>\<open>this.images[i]\<close> is \<^verbatim>\<open>undefined\<close> for a negative \<open>i\<close>, and reading a member of it
  throws; the guard of the getters excludes only the indices past the end.
\<close>

definition currentImageUrl :: "viewer \<Rightarrow> js_error + string" where
  "currentImageUrl s =
     (if int (length (images s)) > 0 \<and> currentImageIndex s < int (length (images s))
      then (if currentImageIndex s < 0 then Inl TypeError
            else (let image = images s ! nat (currentImageIndex s) in
              case VersionDataUrl image of
                Some u \<Rightarrow>
                  (if u \<noteq> [] then Inr u
                   else Inr (''/sfc/servlet.shepherd/version/renditionDownload?rendition=THUMB720BY480&versionId='' @ Id_img image))
              | None \<Rightarrow>
                  Inr (''/sfc/servlet.shepherd/version/renditionDownload?rendition=THUMB720BY480&versionId='' @ Id_img image)))
      else Inr '''')"

definition currentImageTitle :: "viewer \<Rightarrow> js_error + string" where
  "currentImageTitle s =
     (if int (length (images s)) > 0 \<and> currentImageIndex s < int (length (images s))
      then (if currentImageIndex s < 0 then Inl TypeError
            else (let image = images s ! nat (currentImageIndex s) in
              Inr (Title image @ ''.'' @ FileExtension image)))
      else Inr '''')"

definition imageCounter :: "viewer \<Rightarrow> string" where
  "imageCounter s =
     (if int (length (images s)) > 0
      then ''Image '' @ int_string (currentImageIndex s + 1) @ '' of ''
             @ int_string (int (length (images s)))
      else '''')"

definition isMaxZoom :: "viewer \<Rightarrow> bool" where
  "isMaxZoom s = (zoomLevel s \<ge> maxZoom s)"

definition isMinZoom :: "viewer \<Rightarrow> bool" where
  "isMinZoom s = (zoomLevel s \<le> minZoom s)"

definition hasImages :: "viewer \<Rightarrow> bool" where
  "hasImages s = (\<not> isLoading s \<and> int (length (images s)) > 0 \<and> errorMessage s = [])"

definition showNoImagesMessage :: "viewer \<Rightarrow> bool" where
  "showNoImagesMessage s = (\<not> isLoading s \<and> int (length (images s)) = 0 \<and> errorMessage s = [])"

definition isFirstImage :: "viewer \<Rightarrow> bool" where
  "isFirstImage s = (currentImageIndex s = 0)"

definition isLastImage :: "viewer \<Rightarrow> bool" where
  "isLastImage s = (currentImageIndex s = int (length (images s)) - 1)"

subsection \<open>Event sequences\<close>

text \<open>
  Everything that can happen to an instance: the host assigns the public property
  \<open>recordId\<close>, the wire adapter calls \<open>wiredImages\<close>, or the template calls a handler.
\<close>

datatype action =
  SetRecordId "string option"
  | Wire wire_value
  | Previous
  | Next
  | ImageError string
  | ZoomIn
  | ZoomOut
  | ResetZoom
  | Wheel wheel_event
  | MouseDown mouse_event
  | MouseUp
  | MouseLeave
  | MouseMove mouse_event

fun step :: "action \<Rightarrow> viewer \<Rightarrow> viewer \<times> effect list" where
  "step (SetRecordId r) s = (s\<lparr> recordId := r \<rparr>, [])"
| "step (Wire w) s = wiredImages w s"
| "step Previous s = (handlePrevious s, [])"
| "step Next s = (handleNext s, [])"
| "step (ImageError e) s = handleImageError e s"
| "step ZoomIn s = (handleZoomIn s, [])"
| "step ZoomOut s = (handleZoomOut s, [])"
| "step ResetZoom s = (handleResetZoom s, [])"
| "step (Wheel e) s = handleWheel e s"
| "step (MouseDown e) s = handleMouseDown e s"
| "step MouseUp s = handleMouseUp s"
| "step MouseLeave s = handleMouseLeave s"
| "step (MouseMove e) s = handleMouseMove e s"

fun run :: "action list \<Rightarrow> viewer \<Rightarrow> viewer \<times> effect list" where
  "run [] s = (s, [])"
| "run (a # as) s =
     (case step a s of (s1, es1) \<Rightarrow>
        (case run as s1 of (s2, es2) \<Rightarrow> (s2, es1 @ es2)))"

definition state_after :: "action list \<Rightarrow> viewer" where
  "state_after as = fst (run as initial)"

subsection \<open>Invariants of the reachable states\<close>

text \<open>
  The three zoom constants are fields that no handler assigns; the zoom level stays
  between them on the grid of quarters.
\<close>

definition zoom_inv :: "viewer \<Rightarrow> bool" where
  "zoom_inv s = (minZoom s = 1 \<and> maxZoom s = 4 \<and> zoomStep s = 1 / 4
     \<and> 1 \<le> zoomLevel s \<and> zoomLevel s \<le> 4 \<and> 4 * zoomLevel s \<in> \<int>)"

definition pan_inv :: "viewer \<Rightarrow> bool" where
  "pan_inv s = (zoom_inv s \<and> (zoomLevel s = 1 \<longrightarrow> panX s = 0 \<and> panY s = 0))"

definition index_inv :: "viewer \<Rightarrow> bool" where
  "index_inv s = (0 \<le> currentImageIndex s
     \<and> (images s \<noteq> [] \<longrightarrow> currentImageIndex s < int (length (images s))))"

definition error_inv :: "viewer \<Rightarrow> bool" where
  "error_inv s =
     ((errorMessage s = []
       \<or> errorMessage s = ''Error loading images. Please refresh the page.''
       \<or> errorMessage s = ''Unable to display this image. It may be in an unsupported format.'')
      \<and> (errorMessage s = ''Error loading images. Please refresh the page.'' \<longrightarrow> images s = []))"

subsection \<open>Inputs of the scenarios\<close>

definition three_images :: "image list" where
  "three_images =
     [\<lparr> Id_img = ''068A'', Title = ''front'', FileExtension = ''png'', VersionDataUrl = None \<rparr>,
      \<lparr> Id_img = ''068B'', Title = ''side'', FileExtension = ''jpg'',
        VersionDataUrl = Some ''/data/068B'' \<rparr>,
      \<lparr> Id_img = ''068C'', Title = ''back'', FileExtension = ''heic'', VersionDataUrl = None \<rparr>]"

definition one_image :: "image list" where
  "one_image =
     [\<lparr> Id_img = ''068Z'', Title = ''label'', FileExtension = ''jpeg'', VersionDataUrl = None \<rparr>]"

text \<open>A successful delivery of the wire adapter, and a failed one.\<close>

definition ready :: "image list \<Rightarrow> bool \<Rightarrow> action" where
  "ready xs p = Wire \<lparr> error_w = None,
     data_w = Some \<lparr> images_res = Some xs, fromParentCase_res = Some p \<rparr> \<rparr>"

definition failed :: "string \<Rightarrow> action" where
  "failed e = Wire \<lparr> error_w = Some e, data_w = None \<rparr>"

definition pointer :: "rat \<Rightarrow> rat \<Rightarrow> mouse_event" where
  "pointer x y = \<lparr> clientX = x, clientY = y \<rparr>"

text \<open>Three images loaded, four ZoomIn presses (zoom 2), then the pointer goes down at \<open>(50, 50)\<close>.\<close>

definition drag_started_at_zoom_two :: viewer where
  "drag_started_at_zoom_two = fst (handleMouseDown (pointer 50 50)
     (state_after [ready three_images True, ZoomIn, ZoomIn, ZoomIn, ZoomIn]))"

section \<open>Properties\<close>

subsection \<open>Runs and the zoom invariant\<close>

lemma run_invariant:
  assumes "P s" and "\<And>a t. P t \<Longrightarrow> P (fst (step a t))"
  shows "P (fst (run as s))"
  using assms(1)
proof (induction as arbitrary: s)
  case Nil
  then show ?case by simp
next
  case (Cons a as)
  have "P (fst (step a s))" using Cons.prems assms(2) by blast
  then have "P (fst (run as (fst (step a s))))" by (rule Cons.IH)
  then show ?case by (simp add: split_beta)
qed

lemma zoom_inv_initial: "zoom_inv initial"
  by (simp add: zoom_inv_def initial_def)

lemma zoom_inv_reset: "zoom_inv s \<Longrightarrow> zoom_inv (resetZoomAndPan s)"
  by (simp add: zoom_inv_def resetZoomAndPan_def)

lemma zoom_inv_fields:
  assumes "zoom_inv s"
  shows "minZoom s = 1" and "maxZoom s = 4" and "zoomStep s = 1 / 4"
    and "1 \<le> zoomLevel s" and "zoomLevel s \<le> 4" and "4 * zoomLevel s \<in> \<int>"
  using assms unfolding zoom_inv_def by blast+

lemma zoom_inv_frame:
  assumes "zoom_inv s" and "minZoom t = minZoom s" and "maxZoom t = maxZoom s"
    and "zoomStep t = zoomStep s" and "zoomLevel t = zoomLevel s"
  shows "zoom_inv t"
  using assms unfolding zoom_inv_def by simp

lemma zoom_inv_zoomIn:
  assumes "zoom_inv s"
  shows "zoom_inv (handleZoomIn s)"
proof -
  note f = zoom_inv_fields [OF assms]
  have "4 * (zoomLevel s + 1 / 4) = 4 * zoomLevel s + 1" by simp
  with f(6) have q: "4 * (zoomLevel s + 1 / 4) \<in> \<int>" by simp
  show ?thesis
  proof (cases "zoomLevel s < 4")
    case True
    then show ?thesis
      unfolding zoom_inv_def handleZoomIn_def using f(4,5,6) q
      by (simp add: f(1,2,3) min_def)
  next
    case False
    then show ?thesis using assms by (simp add: handleZoomIn_def f(2))
  qed
qed

lemma zoom_inv_zoomOut:
  assumes "zoom_inv s"
  shows "zoom_inv (handleZoomOut s)"
proof -
  note f = zoom_inv_fields [OF assms]
  have "4 * (zoomLevel s - 1 / 4) = 4 * zoomLevel s - 1" by simp
  with f(6) have q: "4 * (zoomLevel s - 1 / 4) \<in> \<int>" by simp
  show ?thesis
  proof (cases "zoomLevel s > 1")
    case True
    then show ?thesis
      unfolding zoom_inv_def handleZoomOut_def using f(4,5,6) q
      by (simp add: f(1,2,3) max_def Let_def)
  next
    case False
    then show ?thesis using assms by (simp add: handleZoomOut_def f(1))
  qed
qed

lemma wiredImages_consts:
  "minZoom (fst (wiredImages w s)) = minZoom s"
  "maxZoom (fst (wiredImages w s)) = maxZoom s"
  "zoomStep (fst (wiredImages w s)) = zoomStep s"
  by (simp_all add: wiredImages_def Let_def resetZoomAndPan_def split: option.splits)

lemma wiredImages_zoomLevel:
  "zoomLevel (fst (wiredImages w s)) = 1 \<or> zoomLevel (fst (wiredImages w s)) = zoomLevel s"
  by (simp add: wiredImages_def Let_def resetZoomAndPan_def split: option.splits)

lemma zoom_inv_step:
  assumes "zoom_inv s"
  shows "zoom_inv (fst (step a s))"
proof (cases a)
  case (Wire w)
  have "zoom_inv (fst (wiredImages w s))"
  proof (cases "zoomLevel (fst (wiredImages w s)) = 1")
    case True
    then show ?thesis
      unfolding zoom_inv_def by (simp add: wiredImages_consts zoom_inv_fields [OF assms])
  next
    case False
    then have "zoomLevel (fst (wiredImages w s)) = zoomLevel s"
      using wiredImages_zoomLevel by blast
    then show ?thesis
      by (simp add: zoom_inv_frame [OF assms] wiredImages_consts)
  qed
  then show ?thesis by (simp add: Wire)
next
  case Previous
  then show ?thesis using assms
    by (simp add: handlePrevious_def zoom_inv_reset zoom_inv_frame [OF assms])
next
  case Next
  then show ?thesis using assms
    by (simp add: handleNext_def zoom_inv_reset zoom_inv_frame [OF assms])
next
  case (Wheel e)
  then show ?thesis using assms
    by (simp add: handleWheel_def zoom_inv_zoomIn zoom_inv_zoomOut)
next
  case ZoomIn
  then show ?thesis using assms by (simp add: zoom_inv_zoomIn)
next
  case ZoomOut
  then show ?thesis using assms by (simp add: zoom_inv_zoomOut)
next
  case ResetZoom
  then show ?thesis using assms by (simp add: handleResetZoom_def zoom_inv_reset)
next
  case (SetRecordId r)
  then show ?thesis by (simp add: zoom_inv_frame [OF assms])
next
  case (ImageError e)
  then show ?thesis by (simp add: handleImageError_def zoom_inv_frame [OF assms])
next
  case (MouseDown e)
  then show ?thesis using assms by (simp add: handleMouseDown_def zoom_inv_frame [OF assms])
next
  case MouseUp
  then show ?thesis by (simp add: handleMouseUp_def zoom_inv_frame [OF assms])
next
  case MouseLeave
  then show ?thesis using assms
    by (simp add: handleMouseLeave_def handleMouseUp_def zoom_inv_frame [OF assms])
next
  case (MouseMove e)
  then show ?thesis using assms
    by (simp add: handleMouseMove_def Let_def zoom_inv_frame [OF assms])
qed

lemma zoom_inv_reachable: "zoom_inv (state_after as)"
  unfolding state_after_def
  by (rule run_invariant [where P = zoom_inv, OF zoom_inv_initial zoom_inv_step])

lemma run_append: "fst (run (as @ bs) s) = fst (run bs (fst (run as s)))"
  by (induction as arbitrary: s) (simp_all add: split_beta)

lemma handleZoomIn_level:
  assumes "zoom_inv s"
  shows "zoomLevel (handleZoomIn s) = min (zoomLevel s + 1 / 4) 4"
  using zoom_inv_fields(5) [OF assms]
  by (simp add: handleZoomIn_def zoom_inv_fields(2,3) [OF assms] min_def)

lemma repeated_zoomIn_level:
  "zoom_inv s \<Longrightarrow>
   zoomLevel (fst (run (replicate n ZoomIn) s)) = min (zoomLevel s + of_nat n / 4) 4"
proof (induction n arbitrary: s)
  case 0
  then show ?case using zoom_inv_fields(5) by simp
next
  case (Suc n)
  have "zoomLevel (fst (run (replicate n ZoomIn) (handleZoomIn s)))
      = min (zoomLevel (handleZoomIn s) + of_nat n / 4) 4"
    by (rule Suc.IH) (rule zoom_inv_zoomIn [OF Suc.prems])
  also have "\<dots> = min (min (zoomLevel s + 1 / 4) 4 + of_nat n / 4) 4"
    by (simp only: handleZoomIn_level [OF Suc.prems])
  also have "\<dots> = min (zoomLevel s + of_nat (Suc n) / 4) 4"
    by (simp add: min_def add_divide_distrib)
  finally show ?case by (simp add: split_beta)
qed

text \<open>
  Claim C3. After any sequence of actions from the initial state (in particular any
  sequence of ZoomIn, ZoomOut and wheel events) the zoom level lies in the closed
  interval from 1 to 4 and has the form \<open>1 + k * 0.25\<close> for an integer \<open>k\<close>; and
  thirteen ZoomIn presses from a state of zoom 1 leave the zoom at exactly 4, with
  \<open>isMaxZoom\<close> true.
\<close>

theorem zoom_quarter_steps_within_bounds:
  "1 \<le> zoomLevel (state_after as) \<and> zoomLevel (state_after as) \<le> 4
   \<and> (\<exists>k::int. zoomLevel (state_after as) = 1 + of_int k * (1 / 4))
   \<and> (zoomLevel (state_after as) = 1 \<longrightarrow>
        zoomLevel (state_after (as @ replicate 13 ZoomIn)) = 4
        \<and> isMaxZoom (state_after (as @ replicate 13 ZoomIn)))"
proof -
  let ?s = "state_after as"
  note f = zoom_inv_fields [OF zoom_inv_reachable [of as]]
  from f(6) obtain n :: int where n: "4 * zoomLevel ?s = of_int n"
    by (auto elim: Ints_cases)
  have "zoomLevel ?s = of_int n / 4"
    using n by (simp add: field_simps)
  moreover have "of_int n / (4::rat) = 1 + of_int (n - 4) * (1 / 4)"
    by (simp add: diff_divide_distrib)
  ultimately have "zoomLevel ?s = 1 + of_int (n - 4) * (1 / 4)"
    by (rule trans)
  then have quarter: "\<exists>k::int. zoomLevel ?s = 1 + of_int k * (1 / 4)" ..
  have thirteen: "zoomLevel (state_after (as @ replicate 13 ZoomIn)) = 4
      \<and> isMaxZoom (state_after (as @ replicate 13 ZoomIn))" if one: "zoomLevel ?s = 1"
  proof -
    have "zoomLevel (state_after (as @ replicate 13 ZoomIn))
        = min (zoomLevel ?s + of_nat 13 / 4) 4"
      unfolding state_after_def run_append
      by (rule repeated_zoomIn_level) (rule zoom_inv_reachable [unfolded state_after_def])
    then have "zoomLevel (state_after (as @ replicate 13 ZoomIn)) = 4"
      using one by simp
    then show ?thesis
      by (simp add: isMaxZoom_def
          zoom_inv_fields(2) [OF zoom_inv_reachable [of "as @ replicate 13 ZoomIn"]])
  qed
  show ?thesis using f(4,5) quarter thirteen by blast
qed

theorem zoom_quarter_steps_within_bounds_witness:
  "zoomLevel (state_after [ready three_images True]) = 1
   \<and> zoomLevel (state_after ([ready three_images True] @ replicate 13 ZoomIn)) = 4
   \<and> isMaxZoom (state_after ([ready three_images True] @ replicate 13 ZoomIn))"
proof -
  have one: "zoomLevel (state_after [ready three_images True]) = 1"
    by code_simp
  show ?thesis
    using one zoom_quarter_steps_within_bounds [of "[ready three_images True]"] by blast
qed

subsection \<open>Pan is at the origin at minimum zoom\<close>

lemma pan_inv_zoomIn:
  assumes "pan_inv s"
  shows "pan_inv (handleZoomIn s)"
proof -
  from assms have z: "zoom_inv s" by (simp add: pan_inv_def)
  note f = zoom_inv_fields [OF z]
  show ?thesis
  proof (cases "zoomLevel s < 4")
    case True
    have "zoomLevel (handleZoomIn s) = min (zoomLevel s + 1 / 4) 4"
      by (rule handleZoomIn_level [OF z])
    with f(4) have "zoomLevel (handleZoomIn s) \<noteq> 1" by (simp add: min_def)
    then show ?thesis by (simp add: pan_inv_def zoom_inv_zoomIn [OF z])
  next
    case False
    then have "handleZoomIn s = s" by (simp add: handleZoomIn_def f(2))
    then show ?thesis using assms by simp
  qed
qed

lemma handleZoomOut_pan:
  "zoomLevel (handleZoomOut s) = minZoom s \<and> panX (handleZoomOut s) = 0 \<and> panY (handleZoomOut s) = 0
   \<or> zoomLevel (handleZoomOut s) \<noteq> minZoom s \<and> zoomLevel s \<noteq> minZoom s
   \<or> handleZoomOut s = s"
  by (simp add: handleZoomOut_def Let_def)

lemma pan_inv_zoomOut:
  assumes "pan_inv s"
  shows "pan_inv (handleZoomOut s)"
proof -
  from assms have z: "zoom_inv s" by (simp add: pan_inv_def)
  note f = zoom_inv_fields [OF z]
  from handleZoomOut_pan [of s] show ?thesis
    using assms zoom_inv_zoomOut [OF z] by (auto simp: pan_inv_def f(1))
qed

lemma pan_inv_reset:
  assumes "pan_inv s"
  shows "pan_inv (resetZoomAndPan s)"
  using assms by (simp add: pan_inv_def zoom_inv_reset) (simp add: resetZoomAndPan_def)

lemma pan_inv_frame:
  assumes "pan_inv s" and "minZoom t = minZoom s" and "maxZoom t = maxZoom s"
    and "zoomStep t = zoomStep s" and "zoomLevel t = zoomLevel s"
    and "panX t = panX s" and "panY t = panY s"
  shows "pan_inv t"
  using assms unfolding pan_inv_def zoom_inv_def by simp

lemma wiredImages_pan:
  "zoomLevel (fst (wiredImages w s)) = 1 \<and> panX (fst (wiredImages w s)) = 0
     \<and> panY (fst (wiredImages w s)) = 0
   \<or> zoomLevel (fst (wiredImages w s)) = zoomLevel s \<and> panX (fst (wiredImages w s)) = panX s
     \<and> panY (fst (wiredImages w s)) = panY s"
  by (simp add: wiredImages_def Let_def resetZoomAndPan_def split: option.splits)

lemma pan_inv_step:
  assumes "pan_inv s"
  shows "pan_inv (fst (step a s))"
proof -
  from assms have z: "zoom_inv s" by (simp add: pan_inv_def)
  have z': "zoom_inv (fst (step a s))" by (rule zoom_inv_step [OF z])
  show ?thesis
  proof (cases a)
    case (Wire w)
    from wiredImages_pan [of w s] have
      "zoomLevel (fst (wiredImages w s)) = 1 \<longrightarrow>
         panX (fst (wiredImages w s)) = 0 \<and> panY (fst (wiredImages w s)) = 0"
      using assms by (auto simp: pan_inv_def)
    then show ?thesis using z' by (simp add: pan_inv_def Wire)
  next
    case Previous
    then show ?thesis using assms by (simp add: handlePrevious_def pan_inv_reset pan_inv_frame [OF assms])
  next
    case Next
    then show ?thesis using assms by (simp add: handleNext_def pan_inv_reset pan_inv_frame [OF assms])
  next
    case (Wheel e)
    then show ?thesis using assms by (simp add: handleWheel_def pan_inv_zoomIn pan_inv_zoomOut)
  next
    case ZoomIn
    then show ?thesis using assms by (simp add: pan_inv_zoomIn)
  next
    case ZoomOut
    then show ?thesis using assms by (simp add: pan_inv_zoomOut)
  next
    case ResetZoom
    then show ?thesis using assms by (simp add: handleResetZoom_def pan_inv_reset)
  next
    case (SetRecordId r)
    then show ?thesis by (simp add: pan_inv_frame [OF assms])
  next
    case (ImageError e)
    then show ?thesis by (simp add: handleImageError_def pan_inv_frame [OF assms])
  next
    case (MouseDown e)
    then show ?thesis using assms by (simp add: handleMouseDown_def pan_inv_frame [OF assms])
  next
    case MouseUp
    then show ?thesis by (simp add: handleMouseUp_def pan_inv_frame [OF assms])
  next
    case MouseLeave
    then show ?thesis using assms
      by (simp add: handleMouseLeave_def handleMouseUp_def pan_inv_frame [OF assms])
  next
    case (MouseMove e)
    show ?thesis
    proof (cases "isDragging s \<and> zoomLevel s > 1")
      case True
      then have "zoomLevel (fst (handleMouseMove e s)) \<noteq> 1"
        by (simp add: handleMouseMove_def Let_def)
      then show ?thesis using z' by (simp add: pan_inv_def MouseMove)
    next
      case False
      then have "fst (handleMouseMove e s) = s" by (auto simp: handleMouseMove_def)
      then show ?thesis using assms by (simp add: MouseMove)
    qed
  qed
qed

lemma pan_inv_reachable: "pan_inv (state_after as)"
  unfolding state_after_def
proof (rule run_invariant [where P = pan_inv])
  show "pan_inv initial" by (simp add: pan_inv_def zoom_inv_initial) (simp add: initial_def)
qed (rule pan_inv_step)

text \<open>
  Claim C5. In every state reached from the initial state by any sequence of loader
  results and user actions, a zoom level of 1 comes with the pan offset \<open>(0, 0)\<close>.
\<close>

theorem pan_at_origin_when_zoom_is_one:
  "zoomLevel (state_after as) = 1 \<longrightarrow> panX (state_after as) = 0 \<and> panY (state_after as) = 0"
  using pan_inv_reachable [of as] by (simp add: pan_inv_def)

theorem pan_at_origin_when_zoom_is_one_witness:
  "zoomLevel (state_after [ready three_images True, ZoomIn, MouseDown (pointer 10 10),
       MouseMove (pointer 60 30), ZoomOut]) = 1
   \<and> panX (state_after [ready three_images True, ZoomIn, MouseDown (pointer 10 10),
       MouseMove (pointer 60 30)]) = 50
   \<and> panX (state_after [ready three_images True, ZoomIn, MouseDown (pointer 10 10),
       MouseMove (pointer 60 30), ZoomOut]) = 0
   \<and> panY (state_after [ready three_images True, ZoomIn, MouseDown (pointer 10 10),
       MouseMove (pointer 60 30), ZoomOut]) = 0"
proof -
  have one: "zoomLevel (state_after [ready three_images True, ZoomIn, MouseDown (pointer 10 10),
       MouseMove (pointer 60 30), ZoomOut]) = 1"
    by code_simp
  have before: "panX (state_after [ready three_images True, ZoomIn, MouseDown (pointer 10 10),
       MouseMove (pointer 60 30)]) = 50"
    by code_simp
  show ?thesis
    using one before pan_at_origin_when_zoom_is_one [of "[ready three_images True, ZoomIn,
       MouseDown (pointer 10 10), MouseMove (pointer 60 30), ZoomOut]"]
    by blast
qed

subsection \<open>Dragging\<close>

lemma handleMouseMove_dragging:
  assumes "isDragging s" and "zoomLevel s > 1"
  shows "fst (handleMouseMove e s) =
     s\<lparr> panX := max (- (100 * zoomLevel s)) (min (100 * zoomLevel s) (clientX e - dragStartX s)),
        panY := max (- (100 * zoomLevel s)) (min (100 * zoomLevel s) (clientY e - dragStartY s)) \<rparr>"
  using assms by (simp add: handleMouseMove_def Let_def)

lemma clamp_bounds:
  fixes m x :: rat
  assumes "0 \<le> m"
  shows "- m \<le> max (- m) (min m x)" and "max (- m) (min m x) \<le> m"
  using assms by simp_all

lemma drag_moves_keep_dragging:
  assumes "isDragging s" and "zoomLevel s > 1"
  shows "isDragging (fst (run (map MouseMove es) s))
     \<and> zoomLevel (fst (run (map MouseMove es) s)) = zoomLevel s
     \<and> dragStartX (fst (run (map MouseMove es) s)) = dragStartX s
     \<and> dragStartY (fst (run (map MouseMove es) s)) = dragStartY s"
  using assms
proof (induction es arbitrary: s)
  case Nil
  then show ?case by simp
next
  case (Cons e es)
  let ?t = "fst (handleMouseMove e s)"
  have t: "isDragging ?t" "zoomLevel ?t = zoomLevel s" "dragStartX ?t = dragStartX s"
    "dragStartY ?t = dragStartY s"
    using Cons.prems by (simp_all add: handleMouseMove_dragging)
  from t Cons.prems have "zoomLevel ?t > 1" by simp
  from Cons.IH [OF t(1) this] show ?case using t by (simp add: split_beta)
qed

text \<open>
  Claim C4. From a state that is dragging above minimum zoom, after any sequence of
  DragMove events the pan is the offset of the last pointer position from the drag
  anchor, clamped on each axis to the interval from \<open>-100 * zoom\<close> to \<open>100 * zoom\<close>,
  hence within that interval; zoom and the dragging flag are untouched, so the same
  holds after every move of the sequence. The witness is the drag from \<open>(50, 50)\<close> to
  \<open>(500, 500)\<close> at zoom 2, which ends at pan \<open>(200, 200)\<close>.
\<close>

theorem drag_move_sets_clamped_pan:
  assumes "isDragging s" and "zoomLevel s > 1"
  shows "panX (fst (run (map MouseMove (es @ [e])) s))
           = max (- (100 * zoomLevel s)) (min (100 * zoomLevel s) (clientX e - dragStartX s))
     \<and> panY (fst (run (map MouseMove (es @ [e])) s))
           = max (- (100 * zoomLevel s)) (min (100 * zoomLevel s) (clientY e - dragStartY s))
     \<and> - (100 * zoomLevel s) \<le> panX (fst (run (map MouseMove (es @ [e])) s))
     \<and> panX (fst (run (map MouseMove (es @ [e])) s)) \<le> 100 * zoomLevel s
     \<and> - (100 * zoomLevel s) \<le> panY (fst (run (map MouseMove (es @ [e])) s))
     \<and> panY (fst (run (map MouseMove (es @ [e])) s)) \<le> 100 * zoomLevel s
     \<and> zoomLevel (fst (run (map MouseMove (es @ [e])) s)) = zoomLevel s
     \<and> isDragging (fst (run (map MouseMove (es @ [e])) s))"
proof -
  let ?t = "fst (run (map MouseMove es) s)"
  let ?u = "fst (run (map MouseMove (es @ [e])) s)"
  note k = drag_moves_keep_dragging [OF assms, of es]
  from k assms(2) have zt: "zoomLevel ?t > 1" by simp
  have "?u = fst (handleMouseMove e ?t)"
    by (simp add: run_append split_beta)
  also have "\<dots> = ?t\<lparr> panX := max (- (100 * zoomLevel ?t)) (min (100 * zoomLevel ?t) (clientX e - dragStartX ?t)),
        panY := max (- (100 * zoomLevel ?t)) (min (100 * zoomLevel ?t) (clientY e - dragStartY ?t)) \<rparr>"
    using k zt by (simp add: handleMouseMove_dragging)
  finally have u: "?u = ?t\<lparr> panX := max (- (100 * zoomLevel s)) (min (100 * zoomLevel s) (clientX e - dragStartX s)),
        panY := max (- (100 * zoomLevel s)) (min (100 * zoomLevel s) (clientY e - dragStartY s)) \<rparr>"
    using k by simp
  have m: "(0::rat) \<le> 100 * zoomLevel s" using assms(2) by simp
  have x: "panX ?u = max (- (100 * zoomLevel s)) (min (100 * zoomLevel s) (clientX e - dragStartX s))"
    unfolding u by simp
  have y: "panY ?u = max (- (100 * zoomLevel s)) (min (100 * zoomLevel s) (clientY e - dragStartY s))"
    unfolding u by simp
  have z: "zoomLevel ?u = zoomLevel s" "isDragging ?u" unfolding u using k by simp_all
  show ?thesis
    using x y z clamp_bounds [OF m, of "clientX e - dragStartX s"]
      clamp_bounds [OF m, of "clientY e - dragStartY s"]
    by (simp only:)
qed

theorem drag_move_sets_clamped_pan_witness:
  "isDragging drag_started_at_zoom_two \<and> zoomLevel drag_started_at_zoom_two = 2
   \<and> dragStartX drag_started_at_zoom_two = 50 \<and> dragStartY drag_started_at_zoom_two = 50
   \<and> panX (fst (run (map MouseMove ([] @ [pointer 500 500])) drag_started_at_zoom_two)) = 200
   \<and> panY (fst (run (map MouseMove ([] @ [pointer 500 500])) drag_started_at_zoom_two)) = 200"
proof -
  have d: "isDragging drag_started_at_zoom_two" by code_simp
  have z: "zoomLevel drag_started_at_zoom_two = 2" by code_simp
  have a: "dragStartX drag_started_at_zoom_two = 50" "dragStartY drag_started_at_zoom_two = 50"
    by code_simp+
  have z1: "zoomLevel drag_started_at_zoom_two > 1" by (simp add: z)
  show ?thesis
    using drag_move_sets_clamped_pan [OF d z1, of "[]" "pointer 500 500"] d z a
    by (simp add: pointer_def)
qed

subsection \<open>Navigation\<close>

text \<open>
  Claim C7. Navigation saturates: Previous at index 0 and Next at the last index return
  the state as it is. In a set of three images, two Next presses from index 0 give
  index 2 with \<open>isLastImage\<close> true, and a third Next changes nothing.
\<close>

theorem navigation_saturates:
  "(currentImageIndex s = 0 \<longrightarrow> handlePrevious s = s)
   \<and> (currentImageIndex s = int (length (images s)) - 1 \<longrightarrow> handleNext s = s)
   \<and> currentImageIndex (state_after [ready three_images True, Next, Next]) = 2
   \<and> isLastImage (state_after [ready three_images True, Next, Next])
   \<and> state_after [ready three_images True, Next, Next, Next]
       = state_after [ready three_images True, Next, Next]"
proof -
  have a: "currentImageIndex s = 0 \<longrightarrow> handlePrevious s = s"
    by (simp add: handlePrevious_def)
  have b: "currentImageIndex s = int (length (images s)) - 1 \<longrightarrow> handleNext s = s"
    by (simp add: handleNext_def)
  have c: "currentImageIndex (state_after [ready three_images True, Next, Next]) = 2"
    by code_simp
  have d: "isLastImage (state_after [ready three_images True, Next, Next])"
    by code_simp
  have e: "state_after [ready three_images True, Next, Next, Next]
       = state_after [ready three_images True, Next, Next]"
    by code_simp
  from a b c d e show ?thesis by blast
qed

theorem navigation_saturates_witness:
  "currentImageIndex (state_after [ready three_images True]) = 0
   \<and> handlePrevious (state_after [ready three_images True]) = state_after [ready three_images True]
   \<and> images (state_after [ready three_images True, Next, Next]) \<noteq> []
   \<and> currentImageIndex (state_after [ready three_images True, Next, Next])
       = int (length (images (state_after [ready three_images True, Next, Next]))) - 1
   \<and> handleNext (state_after [ready three_images True, Next, Next])
       = state_after [ready three_images True, Next, Next]"
proof -
  have a: "currentImageIndex (state_after [ready three_images True]) = 0" by code_simp
  have b: "images (state_after [ready three_images True, Next, Next]) \<noteq> []" by code_simp
  have c: "currentImageIndex (state_after [ready three_images True, Next, Next])
       = int (length (images (state_after [ready three_images True, Next, Next]))) - 1"
    by code_simp
  show ?thesis
    using a b c navigation_saturates [of "state_after [ready three_images True]"]
      navigation_saturates [of "state_after [ready three_images True, Next, Next]"]
    by blast
qed

subsection \<open>A failed query\<close>

text \<open>
  Claim C8. A delivery that carries an error and no data empties the image set, records
  the error message, and performs exactly one outside effect, the \<^verbatim>\<open>console.error\<close> entry.
  The list of effects has no other member: the handler issues no query of its own.
\<close>

theorem query_failure_clears_and_logs_once:
  "wiredImages \<lparr> error_w = Some e, data_w = None \<rparr> s =
     (s\<lparr> images := [], errorMessage := ''Error loading images. Please refresh the page.'',
         isLoading := False, hasParentCase := False \<rparr>,
      [ConsoleError ''Error loading images:'' e])
   \<and> images (fst (wiredImages \<lparr> error_w = Some e, data_w = None \<rparr> s)) = []
   \<and> errorMessage (fst (wiredImages \<lparr> error_w = Some e, data_w = None \<rparr> s)) \<noteq> []
   \<and> length (snd (wiredImages \<lparr> error_w = Some e, data_w = None \<rparr> s)) = 1"
  by (simp add: wiredImages_def)

subsection \<open>A failed image render\<close>

text \<open>
  Claim C9. \<open>handleImageError\<close> sets the error message to the unsupported-format notice
  and leaves every other field as it was, the image set and the index among them;
  Previous and Next act after it exactly as they would have acted before it.
\<close>

theorem render_failure_only_sets_message:
  "fst (handleImageError ev s)
     = s\<lparr> errorMessage := ''Unable to display this image. It may be in an unsupported format.'' \<rparr>
   \<and> images (fst (handleImageError ev s)) = images s
   \<and> currentImageIndex (fst (handleImageError ev s)) = currentImageIndex s
   \<and> handleNext (fst (handleImageError ev s)) = fst (handleImageError ev (handleNext s))
   \<and> handlePrevious (fst (handleImageError ev s)) = fst (handleImageError ev (handlePrevious s))"
  by (simp add: handleImageError_def handleNext_def handlePrevious_def resetZoomAndPan_def)

subsection \<open>Deliveries of the wire adapter\<close>

text \<open>
  Claim C1 asks that a late response for an older identifier be discarded. The wired
  function receives \<^verbatim>\<open>{ error, data }\<close> only and never reads \<open>recordId\<close>. With the
  identifier set to 500A and then to 500B, a delivery of three images (for 500B) followed
  by a delivery of one image (for 500A) leaves the one image in place while \<open>recordId\<close>
  is 500B.
\<close>

theorem stale_response_overwrites_counterexample:
  "recordId (state_after [SetRecordId (Some ''500A''), SetRecordId (Some ''500B''),
       ready three_images True, ready one_image False]) = Some ''500B''
   \<and> images (state_after [SetRecordId (Some ''500A''), SetRecordId (Some ''500B''),
       ready three_images True]) = three_images
   \<and> images (state_after [SetRecordId (Some ''500A''), SetRecordId (Some ''500B''),
       ready three_images True, ready one_image False]) = one_image
   \<and> one_image \<noteq> three_images"
  by code_simp

text \<open>
  Claim C1, as the code has it. Every delivery that carries data replaces the image set,
  the source flag and the error message by what it carries, whatever the state before
  it, so of two deliveries the later one decides; \<open>wiredImages\<close> neither reads nor
  writes \<open>recordId\<close>, and compares no identifier.
\<close>

theorem wiredImages_applies_each_delivery:
  "images (fst (wiredImages \<lparr> error_w = e, data_w = Some d \<rparr> s))
     = (case images_res d of None \<Rightarrow> [] | Some xs \<Rightarrow> xs)
   \<and> hasParentCase (fst (wiredImages \<lparr> error_w = e, data_w = Some d \<rparr> s))
     = (case fromParentCase_res d of None \<Rightarrow> False | Some b \<Rightarrow> b)
   \<and> errorMessage (fst (wiredImages \<lparr> error_w = e, data_w = Some d \<rparr> s)) = []
   \<and> fst (wiredImages w (s\<lparr> recordId := r \<rparr>)) = (fst (wiredImages w s))\<lparr> recordId := r \<rparr>
   \<and> snd (wiredImages w (s\<lparr> recordId := r \<rparr>)) = snd (wiredImages w s)
   \<and> recordId (fst (wiredImages w s)) = recordId s"
  by (simp add: wiredImages_def Let_def resetZoomAndPan_def split: option.splits)

subsection \<open>The error message and the image set\<close>

text \<open>
  Claim C2 asks for an empty image set whenever an error message is set. After three
  images are loaded, a render failure sets the message and keeps the images.
\<close>

theorem error_with_images_counterexample:
  "errorMessage (state_after [ready three_images True, ImageError ''error event'']) \<noteq> []
   \<and> images (state_after [ready three_images True, ImageError ''error event'']) \<noteq> []"
  by code_simp

lemma error_inv_frame:
  assumes "error_inv s" and "errorMessage t = errorMessage s" and "images t = images s"
  shows "error_inv t"
  using assms unfolding error_inv_def by simp

lemma error_inv_wiredImages:
  assumes "error_inv s"
  shows "error_inv (fst (wiredImages w s))"
proof (cases "data_w w")
  case (Some d)
  then have "errorMessage (fst (wiredImages w s)) = []"
    by (simp add: wiredImages_def Let_def resetZoomAndPan_def)
  then show ?thesis by (simp add: error_inv_def)
next
  case None
  show ?thesis
  proof (cases "error_w w")
    case (Some e)
    with None have "errorMessage (fst (wiredImages w s)) = ''Error loading images. Please refresh the page.''"
      and "images (fst (wiredImages w s)) = []"
      by (simp_all add: wiredImages_def)
    then show ?thesis by (simp add: error_inv_def)
  next
    case n: None
    with None show ?thesis by (simp add: wiredImages_def error_inv_frame [OF assms])
  qed
qed

lemma error_inv_step:
  assumes "error_inv s"
  shows "error_inv (fst (step a s))"
proof (cases a)
  case (Wire w)
  then show ?thesis by (simp add: error_inv_wiredImages [OF assms])
next
  case (ImageError e)
  have "errorMessage (fst (handleImageError e s))
      = ''Unable to display this image. It may be in an unsupported format.''"
    by (simp add: handleImageError_def)
  then show ?thesis by (simp add: error_inv_def ImageError)
next
  case Previous
  then show ?thesis using assms
    by (simp add: handlePrevious_def resetZoomAndPan_def error_inv_frame [OF assms])
next
  case Next
  then show ?thesis using assms
    by (simp add: handleNext_def resetZoomAndPan_def error_inv_frame [OF assms])
next
  case ZoomIn
  then show ?thesis using assms by (simp add: handleZoomIn_def error_inv_frame [OF assms])
next
  case ZoomOut
  then show ?thesis using assms
    by (simp add: handleZoomOut_def Let_def error_inv_frame [OF assms])
next
  case ResetZoom
  then show ?thesis
    by (simp add: handleResetZoom_def resetZoomAndPan_def error_inv_frame [OF assms])
next
  case (Wheel e)
  then show ?thesis using assms
    by (simp add: handleWheel_def handleZoomIn_def handleZoomOut_def Let_def
        error_inv_frame [OF assms])
next
  case (SetRecordId r)
  then show ?thesis by (simp add: error_inv_frame [OF assms])
next
  case (MouseDown e)
  then show ?thesis using assms by (simp add: handleMouseDown_def error_inv_frame [OF assms])
next
  case MouseUp
  then show ?thesis by (simp add: handleMouseUp_def error_inv_frame [OF assms])
next
  case MouseLeave
  then show ?thesis using assms
    by (simp add: handleMouseLeave_def handleMouseUp_def error_inv_frame [OF assms])
next
  case (MouseMove e)
  then show ?thesis using assms
    by (simp add: handleMouseMove_def Let_def error_inv_frame [OF assms])
qed

lemma error_inv_reachable: "error_inv (state_after as)"
  unfolding state_after_def
proof (rule run_invariant [where P = error_inv])
  show "error_inv initial" by (simp add: error_inv_def initial_def)
qed (rule error_inv_step)

text \<open>
  Claim C2, as the code has it. In every reachable state a set error message makes
  \<open>hasImages\<close> false; the message is empty, the fetch-failure message or the
  render-failure notice; and with the fetch-failure message the image set is empty.
\<close>

theorem error_message_excludes_display:
  "(errorMessage (state_after as) \<noteq> [] \<longrightarrow> \<not> hasImages (state_after as))
   \<and> (errorMessage (state_after as) = ''Error loading images. Please refresh the page.''
        \<longrightarrow> images (state_after as) = [])
   \<and> (errorMessage (state_after as) = []
       \<or> errorMessage (state_after as) = ''Error loading images. Please refresh the page.''
       \<or> errorMessage (state_after as)
           = ''Unable to display this image. It may be in an unsupported format.'')"
  using error_inv_reachable [of as] by (simp add: error_inv_def hasImages_def)

theorem error_message_excludes_display_witness:
  "errorMessage (state_after [ready three_images True, failed ''timeout''])
     = ''Error loading images. Please refresh the page.''
   \<and> images (state_after [ready three_images True, failed ''timeout'']) = []
   \<and> \<not> hasImages (state_after [ready three_images True, failed ''timeout''])"
proof -
  have m: "errorMessage (state_after [ready three_images True, failed ''timeout''])
     = ''Error loading images. Please refresh the page.''"
    by code_simp
  then have n: "errorMessage (state_after [ready three_images True, failed ''timeout'']) \<noteq> []"
    by simp
  show ?thesis
    using m n error_message_excludes_display [of "[ready three_images True, failed ''timeout'']"]
    by blast
qed

subsection \<open>Resetting the view\<close>

text \<open>
  Claim C6 asks for a reset of the view on every replacement of the image set, an empty
  set included. The reset in \<open>wiredImages\<close> is guarded by a non-empty set: with image 2
  of 3 shown at zoom 1.25, an empty result keeps zoom 1.25 and index 1.
\<close>

theorem empty_set_keeps_view_counterexample:
  "images (state_after [ready three_images True, Next, ZoomIn, ready [] True]) = []
   \<and> zoomLevel (state_after [ready three_images True, Next, ZoomIn, ready [] True]) = 5 / 4
   \<and> currentImageIndex (state_after [ready three_images True, Next, ZoomIn, ready [] True]) = 1"
  by code_simp

lemma index_change_resets_step:
  "currentImageIndex (fst (step a s)) \<noteq> currentImageIndex s \<longrightarrow>
     zoomLevel (fst (step a s)) = 1 \<and> panX (fst (step a s)) = 0 \<and> panY (fst (step a s)) = 0"
proof (cases a)
  case (Wire w)
  then show ?thesis
    by (simp add: wiredImages_def Let_def resetZoomAndPan_def split: option.splits)
next
  case Previous
  then show ?thesis by (simp add: handlePrevious_def resetZoomAndPan_def)
next
  case Next
  then show ?thesis by (simp add: handleNext_def resetZoomAndPan_def)
next
  case (Wheel e)
  then show ?thesis by (simp add: handleWheel_def handleZoomIn_def handleZoomOut_def Let_def)
qed (simp_all add: handleImageError_def handleZoomIn_def handleZoomOut_def Let_def
    handleResetZoom_def resetZoomAndPan_def handleMouseDown_def handleMouseUp_def
    handleMouseLeave_def handleMouseMove_def)

text \<open>
  Claim C6, as the code has it. Whenever an action changes the selected index, zoom is 1
  and pan is the origin afterwards; a delivery of a non-empty image set puts the index
  at 0, zoom at 1 and pan at the origin; a delivery of an empty set leaves index, zoom
  and pan as they were.
\<close>

theorem index_change_resets_view:
  "(currentImageIndex (fst (step a s)) \<noteq> currentImageIndex s \<longrightarrow>
      zoomLevel (fst (step a s)) = 1 \<and> panX (fst (step a s)) = 0 \<and> panY (fst (step a s)) = 0)
   \<and> (xs \<noteq> [] \<longrightarrow>
        fst (wiredImages \<lparr> error_w = e, data_w = Some \<lparr> images_res = Some xs, fromParentCase_res = p \<rparr> \<rparr> s)
        = s\<lparr> images := xs, currentImageIndex := 0, errorMessage := [], isLoading := False,
             hasParentCase := (case p of None \<Rightarrow> False | Some b \<Rightarrow> b),
             zoomLevel := 1, panX := 0, panY := 0 \<rparr>)
   \<and> fst (wiredImages \<lparr> error_w = e, data_w = Some \<lparr> images_res = Some [], fromParentCase_res = p \<rparr> \<rparr> s)
        = s\<lparr> images := [], errorMessage := [], isLoading := False,
             hasParentCase := (case p of None \<Rightarrow> False | Some b \<Rightarrow> b) \<rparr>"
proof -
  have b: "xs \<noteq> [] \<longrightarrow>
        fst (wiredImages \<lparr> error_w = e, data_w = Some \<lparr> images_res = Some xs, fromParentCase_res = p \<rparr> \<rparr> s)
        = s\<lparr> images := xs, currentImageIndex := 0, errorMessage := [], isLoading := False,
             hasParentCase := (case p of None \<Rightarrow> False | Some b \<Rightarrow> b),
             zoomLevel := 1, panX := 0, panY := 0 \<rparr>"
    by (simp add: wiredImages_def Let_def resetZoomAndPan_def)
  have c: "fst (wiredImages \<lparr> error_w = e, data_w = Some \<lparr> images_res = Some [], fromParentCase_res = p \<rparr> \<rparr> s)
        = s\<lparr> images := [], errorMessage := [], isLoading := False,
             hasParentCase := (case p of None \<Rightarrow> False | Some b \<Rightarrow> b) \<rparr>"
    by (simp add: wiredImages_def Let_def)
  from index_change_resets_step [of a s] b c show ?thesis by blast
qed

theorem index_change_resets_view_witness:
  "currentImageIndex (state_after [ready three_images True, ZoomIn]) = 0
   \<and> zoomLevel (state_after [ready three_images True, ZoomIn]) = 5 / 4
   \<and> currentImageIndex (fst (step Next (state_after [ready three_images True, ZoomIn]))) = 1
   \<and> zoomLevel (fst (step Next (state_after [ready three_images True, ZoomIn]))) = 1
   \<and> panX (fst (step Next (state_after [ready three_images True, ZoomIn]))) = 0
   \<and> panY (fst (step Next (state_after [ready three_images True, ZoomIn]))) = 0
   \<and> one_image \<noteq> []
   \<and> zoomLevel (fst (wiredImages \<lparr> error_w = None,
        data_w = Some \<lparr> images_res = Some one_image, fromParentCase_res = Some False \<rparr> \<rparr>
        (state_after [ready three_images True, ZoomIn]))) = 1"
proof -
  let ?s = "state_after [ready three_images True, ZoomIn]"
  have a: "currentImageIndex ?s = 0" "zoomLevel ?s = 5 / 4" by code_simp+
  have b: "currentImageIndex (fst (step Next ?s)) = 1" by code_simp
  with a have c: "currentImageIndex (fst (step Next ?s)) \<noteq> currentImageIndex ?s" by simp
  have d: "one_image \<noteq> []" by (simp add: one_image_def)
  note t = index_change_resets_view [of Next ?s one_image None "Some False"]
  from t c have r: "zoomLevel (fst (step Next ?s)) = 1 \<and> panX (fst (step Next ?s)) = 0
      \<and> panY (fst (step Next ?s)) = 0" by blast
  from t d have "fst (wiredImages \<lparr> error_w = None,
        data_w = Some \<lparr> images_res = Some one_image, fromParentCase_res = Some False \<rparr> \<rparr> ?s)
     = ?s\<lparr> images := one_image, currentImageIndex := 0, errorMessage := [], isLoading := False,
             hasParentCase := (case Some False of None \<Rightarrow> False | Some b \<Rightarrow> b),
             zoomLevel := 1, panX := 0, panY := 0 \<rparr>" by blast
  then have w: "zoomLevel (fst (wiredImages \<lparr> error_w = None,
        data_w = Some \<lparr> images_res = Some one_image, fromParentCase_res = Some False \<rparr> \<rparr> ?s)) = 1"
    by simp
  from a b r d w show ?thesis by blast
qed

subsection \<open>Getters on the empty image set\<close>

text \<open>
  Claim C10 asks for \<open>isFirstImage\<close> to be true on every empty image set. An empty
  result arriving while image 2 of 3 is shown keeps index 1, and the flag is false.
\<close>

theorem first_image_flag_on_empty_set_counterexample:
  "images (state_after [ready three_images True, Next, ready [] True]) = []
   \<and> \<not> isFirstImage (state_after [ready three_images True, Next, ready [] True])"
  by code_simp

lemma index_inv_step:
  assumes "index_inv s"
  shows "index_inv (fst (step a s))"
proof (cases a)
  case (Wire w)
  then show ?thesis using assms
    by (auto simp: index_inv_def wiredImages_def Let_def resetZoomAndPan_def split: option.splits)
next
  case Previous
  then show ?thesis using assms
    by (auto simp: index_inv_def handlePrevious_def resetZoomAndPan_def)
next
  case Next
  then show ?thesis using assms
    by (auto simp: index_inv_def handleNext_def resetZoomAndPan_def)
next
  case (Wheel e)
  then show ?thesis using assms
    by (simp add: index_inv_def handleWheel_def handleZoomIn_def handleZoomOut_def Let_def)
next
  case ZoomOut
  then show ?thesis using assms
    by (simp add: index_inv_def handleZoomOut_def Let_def)
next
  case (MouseMove e)
  then show ?thesis using assms
    by (simp add: index_inv_def handleMouseMove_def Let_def)
qed (use assms in \<open>simp_all add: index_inv_def handleImageError_def handleZoomIn_def
    handleResetZoom_def resetZoomAndPan_def handleMouseDown_def handleMouseUp_def
    handleMouseLeave_def\<close>)

lemma index_inv_reachable: "index_inv (state_after as)"
  unfolding state_after_def
proof (rule run_invariant [where P = index_inv])
  show "index_inv initial" by (simp add: index_inv_def initial_def)
qed (rule index_inv_step)

lemma wiredImages_keeps_first_flag:
  "images (fst (wiredImages w s)) = [] \<longrightarrow>
     isFirstImage (fst (wiredImages w s)) = isFirstImage s"
  by (simp add: wiredImages_def Let_def resetZoomAndPan_def isFirstImage_def split: option.splits)

text \<open>
  Claim C10, as the code has it. In every reachable state with an empty image set,
  \<open>currentImageUrl\<close>, \<open>currentImageTitle\<close> and \<open>imageCounter\<close> return the empty string
  without reading the array, and \<open>isLastImage\<close> is false; \<open>isFirstImage\<close> tells whether
  the kept index is 0: it is true initially, and a delivery that leaves the set empty
  does not change it.
\<close>

theorem getters_on_empty_set:
  "(images (state_after as) = [] \<longrightarrow>
      currentImageUrl (state_after as) = Inr []
      \<and> currentImageTitle (state_after as) = Inr []
      \<and> imageCounter (state_after as) = []
      \<and> \<not> isLastImage (state_after as)
      \<and> (isFirstImage (state_after as) \<longleftrightarrow> currentImageIndex (state_after as) = 0))
   \<and> isFirstImage initial
   \<and> (images (fst (wiredImages w s)) = [] \<longrightarrow>
        isFirstImage (fst (wiredImages w s)) = isFirstImage s)"
proof -
  have "0 \<le> currentImageIndex (state_after as)"
    using index_inv_reachable [of as] by (simp add: index_inv_def)
  then have a: "images (state_after as) = [] \<longrightarrow>
      currentImageUrl (state_after as) = Inr []
      \<and> currentImageTitle (state_after as) = Inr []
      \<and> imageCounter (state_after as) = []
      \<and> \<not> isLastImage (state_after as)
      \<and> (isFirstImage (state_after as) \<longleftrightarrow> currentImageIndex (state_after as) = 0)"
    by (simp add: currentImageUrl_def currentImageTitle_def imageCounter_def isLastImage_def
        isFirstImage_def)
  have b: "isFirstImage initial" by (simp add: isFirstImage_def initial_def)
  from a b wiredImages_keeps_first_flag [of w s] show ?thesis by blast
qed

theorem getters_on_empty_set_witness:
  "images (state_after [ready [] False]) = []
   \<and> currentImageUrl (state_after [ready [] False]) = Inr []
   \<and> currentImageTitle (state_after [ready [] False]) = Inr []
   \<and> imageCounter (state_after [ready [] False]) = []
   \<and> \<not> isLastImage (state_after [ready [] False])
   \<and> isFirstImage (state_after [ready [] False])"
proof -
  have e: "images (state_after [ready [] False]) = []" by code_simp
  have i: "currentImageIndex (state_after [ready [] False]) = 0" by code_simp
  show ?thesis
    using e i getters_on_empty_set [of "[ready [] False]"] by blast
qed

end
